theory Spec2Isabelle
  imports Main "HOL-Library.Word" "HOL-Library.AList" "HOL-Library.Sublist"
begin

section \<open>JavaScript strings\<close>

text \<open>
  A JavaScript string is a sequence of 16-bit code units; \<open>raw.length\<close> counts them and
  \<open>raw[i]\<close> reads one of them (or is \<open>undefined\<close> out of range).
\<close>

type_synonym jschar = "16 word"
type_synonym jsstring = "jschar list"

definition js :: "string \<Rightarrow> jsstring" where
  "js s = map (\<lambda>c. word_of_nat (of_char c)) s"

definition DQUOTE :: jschar where "DQUOTE = 0x22"
definition COMMA :: jschar where "COMMA = 0x2C"
definition CR :: jschar where "CR = 0x0D"
definition LF :: jschar where "LF = 0x0A"

text \<open>\<open>xs[i]\<close> on a string or an array: \<open>None\<close> stands for \<open>undefined\<close>.\<close>

definition js_index :: "'a list \<Rightarrow> nat \<Rightarrow> 'a option" where
  "js_index xs i = (if i < length xs then Some (xs ! i) else None)"

section \<open>The scan loop of parseCSV\<close>

record scan_state =
  pos :: nat
  cur :: jsstring
  row :: "jsstring list"
  rows :: "jsstring list list"
  inQuotes :: bool

definition init_state :: scan_state where
  "init_state = \<lparr>pos = 0, cur = [], row = [], rows = [], inQuotes = False\<rparr>"

text \<open>One iteration of \<open>while (i < raw.length)\<close>, PlywoodSimple.js lines 49-67.\<close>

definition step :: "jsstring \<Rightarrow> scan_state \<Rightarrow> scan_state" where
  "step raw st =
     (let i = pos st; ch = raw ! i in
      if inQuotes st then
        (if ch = DQUOTE then
           (if js_index raw (i + 1) = Some DQUOTE
            then st\<lparr>cur := cur st @ [DQUOTE], pos := i + 2\<rparr>
            else st\<lparr>inQuotes := False, pos := i + 1\<rparr>)
         else st\<lparr>cur := cur st @ [ch], pos := i + 1\<rparr>)
      else if ch = DQUOTE then st\<lparr>inQuotes := True, pos := i + 1\<rparr>
      else if ch = COMMA then st\<lparr>row := row st @ [cur st], cur := [], pos := i + 1\<rparr>
      else if ch = CR \<or> ch = LF then
        (let i' = (if ch = CR \<and> js_index raw (i + 1) = Some LF then i + 1 else i) in
         st\<lparr>pos := i' + 1, rows := rows st @ [row st @ [cur st]], row := [], cur := []\<rparr>)
      else st\<lparr>cur := cur st @ [ch], pos := i + 1\<rparr>)"

function loop :: "jsstring \<Rightarrow> scan_state \<Rightarrow> scan_state" where
  "loop raw st = (if pos st < length raw then loop raw (step raw st) else st)"
  by pat_completeness auto
termination
  by (relation "measure (\<lambda>(raw, st). length raw - pos st)") (auto simp: step_def Let_def)

text \<open>
  After the loop (line 69): a pending field or a row with at least one field is flushed
  as the last row.
\<close>

definition finish :: "scan_state \<Rightarrow> jsstring list list" where
  "finish st =
     (if cur st \<noteq> [] \<or> length (row st) > 0 then rows st @ [row st @ [cur st]]
      else rows st)"

definition scan_rows :: "jsstring \<Rightarrow> jsstring list list" where
  "scan_rows raw = finish (loop raw init_state)"

section \<open>String.prototype.trim\<close>

text \<open>
  \<open>trim\<close> is a built-in of the language: it removes the code units that ECMAScript
  classes as WhiteSpace or LineTerminator from both ends of the string.
\<close>

definition is_ws :: "jschar \<Rightarrow> bool" where
  "is_ws c \<longleftrightarrow>
     c \<in> set [0x09, 0x0A, 0x0B, 0x0C, 0x0D, 0x20, 0xA0, 0x1680, 0x2028, 0x2029,
              0x202F, 0x205F, 0x3000, 0xFEFF]
     \<or> (0x2000 \<le> c \<and> c \<le> 0x200A)"

definition trim :: "jsstring \<Rightarrow> jsstring" where
  "trim s = rev (dropWhile is_ws (rev (dropWhile is_ws s)))"

section \<open>Records: plain objects with string values\<close>

text \<open>
  The object built by \<open>const obj = {}\<close> and \<open>obj[k] = v\<close> is modelled by its own
  properties in creation order. Assigning to an existing key replaces the value and keeps
  the key's place; assigning to a new key creates the property at the end. The key
  \<open>__proto__\<close> is not created: the assignment reaches the accessor inherited from
  \<open>Object.prototype\<close>, whose setter ignores a value that is a string.
\<close>

type_synonym obj = "(jsstring \<times> jsstring) list"

definition obj_set :: "obj \<Rightarrow> jsstring \<Rightarrow> jsstring \<Rightarrow> obj" where
  "obj_set ob k v = (if k = js ''__proto__'' then ob else AList.update k v ob)"

text \<open>
  Reading \<open>ob.k\<close> for a key that \<open>Object.prototype\<close> does not define: the own
  property's value, or \<open>undefined\<close> (\<open>None\<close>).
\<close>

definition obj_get :: "obj \<Rightarrow> jsstring \<Rightarrow> jsstring option" where
  "obj_get ob k = map_of ob k"

text \<open>
  The order in which the keys of an object are enumerated (\<open>Object.keys\<close>,
  \<open>for-in\<close>, \<open>JSON.stringify\<close>): first the keys that are array indices (canonical
  decimal numerals below \<open>2^32 - 1\<close>) in ascending numeric order, then all other keys
  in creation order.
\<close>

definition is_digit :: "jschar \<Rightarrow> bool" where
  "is_digit c \<longleftrightarrow> 0x30 \<le> c \<and> c \<le> 0x39"

definition digits_val :: "jsstring \<Rightarrow> int" where
  "digits_val s = foldl (\<lambda>a c. 10 * a + (uint c - 48)) 0 s"

definition is_array_index :: "jsstring \<Rightarrow> bool" where
  "is_array_index s \<longleftrightarrow>
     s \<noteq> [] \<and> list_all is_digit s \<and> (hd s \<noteq> 0x30 \<or> length s = 1)
     \<and> digits_val s < 2 ^ 32 - 1"

definition own_keys :: "obj \<Rightarrow> jsstring list" where
  "own_keys ob =
     sort_key digits_val (filter is_array_index (map fst ob))
     @ filter (\<lambda>k. \<not> is_array_index k) (map fst ob)"

section \<open>parseCSV (PlywoodSimple.js)\<close>

datatype error = TypeError | ReferenceError

text \<open>
  Line 74: \<open>r[j] !== undefined ? r[j].trim() : ""\<close>.
\<close>

definition cell :: "jsstring list \<Rightarrow> nat \<Rightarrow> jsstring" where
  "cell r j = (case js_index r j of Some c \<Rightarrow> trim c | None \<Rightarrow> [])"

text \<open>
  Lines 73-75: the object of one data row, filled by
  \<open>for (let j=0;j<header.length;j++) obj[header[j]] = ...\<close>.
\<close>

definition make_obj :: "jsstring list \<Rightarrow> jsstring list \<Rightarrow> obj" where
  "make_obj header r = fold (\<lambda>j ob. obj_set ob (header ! j) (cell r j)) [0..<length header] []"

text \<open>
  Lines 45-77. \<open>rows[0].map\<close> would raise a TypeError on an empty \<open>rows\<close>, where
  \<open>rows[0]\<close> is \<open>undefined\<close>; \<open>rows.slice(1)\<close> is \<open>drop 1\<close>.
\<close>

definition parseCSV :: "jsstring \<Rightarrow> error + obj list" where
  "parseCSV raw =
     (let rws = scan_rows raw in
      if length rws = 0 then Inr []
      else (case js_index rws 0 of
              None \<Rightarrow> Inl TypeError
            | Some h \<Rightarrow>
                (let header = map trim h in
                 Inr (map (\<lambda>r. make_obj header r) (drop 1 rws)))))"

text \<open>Line 99 of \<open>fetchCsv\<close>: the filter on the \<open>visible\<close> field.\<close>

definition fetchCsv_visible :: "obj list \<Rightarrow> obj list" where
  "fetchCsv_visible parsed =
     filter (\<lambda>r. obj_get r (js ''visible'') = Some []
               \<or> obj_get r (js ''visible'') = Some (js ''true'')
               \<or> obj_get r (js ''visible'') = Some (js ''1'')) parsed"

section \<open>parseCSV (PlywoodSingle.js)\<close>

text \<open>The second component's own parser, lines 18-55 of its file, translated separately.\<close>

definition step_Single :: "jsstring \<Rightarrow> scan_state \<Rightarrow> scan_state" where
  "step_Single raw st =
     (let i = pos st; ch = raw ! i in
      if inQuotes st then
        (if ch = DQUOTE then
           (if js_index raw (i + 1) = Some DQUOTE
            then st\<lparr>cur := cur st @ [DQUOTE], pos := i + 2\<rparr>
            else st\<lparr>inQuotes := False, pos := i + 1\<rparr>)
         else st\<lparr>cur := cur st @ [ch], pos := i + 1\<rparr>)
      else if ch = DQUOTE then st\<lparr>inQuotes := True, pos := i + 1\<rparr>
      else if ch = COMMA then st\<lparr>row := row st @ [cur st], cur := [], pos := i + 1\<rparr>
      else if ch = CR \<or> ch = LF then
        (let i' = (if ch = CR \<and> js_index raw (i + 1) = Some LF then i + 1 else i) in
         st\<lparr>pos := i' + 1, rows := rows st @ [row st @ [cur st]], row := [], cur := []\<rparr>)
      else st\<lparr>cur := cur st @ [ch], pos := i + 1\<rparr>)"

function loop_Single :: "jsstring \<Rightarrow> scan_state \<Rightarrow> scan_state" where
  "loop_Single raw st = (if pos st < length raw then loop_Single raw (step_Single raw st) else st)"
  by pat_completeness auto
termination
  by (relation "measure (\<lambda>(raw, st). length raw - pos st)") (auto simp: step_Single_def Let_def)

definition make_obj_Single :: "jsstring list \<Rightarrow> jsstring list \<Rightarrow> obj" where
  "make_obj_Single header r =
     fold (\<lambda>j ob. obj_set ob (header ! j)
                    (case js_index r j of Some c \<Rightarrow> trim c | None \<Rightarrow> []))
          [0..<length header] []"

definition parseCSV_Single :: "jsstring \<Rightarrow> error + obj list" where
  "parseCSV_Single raw =
     (let st = loop_Single raw init_state;
          rws = (if cur st \<noteq> [] \<or> length (row st) > 0 then rows st @ [row st @ [cur st]]
                 else rows st) in
      if length rws = 0 then Inr []
      else (case js_index rws 0 of
              None \<Rightarrow> Inl TypeError
            | Some h \<Rightarrow>
                (let header = map trim h;
                     data = map (\<lambda>r. make_obj_Single header r) (drop 1 rws)
                 in Inr data)))"

text \<open>Line 83 of \<open>fetchSheet\<close>: the same filter, written a second time.\<close>

definition fetchSheet_items :: "obj list \<Rightarrow> obj list" where
  "fetchSheet_items parsed =
     filter (\<lambda>rw. (obj_get rw (js ''visible'') = Some []
                \<or> obj_get rw (js ''visible'') = Some (js ''true'')
                \<or> obj_get rw (js ''visible'') = Some (js ''1''))) parsed"

section \<open>The description formatter (PlywoodSimple.js)\<close>

text \<open>
  \<open>s.replace(/c/g, rep)\<close> for a one-character pattern \<open>c\<close> and a replacement text
  without \<open>$\<close>: every occurrence of \<open>c\<close> becomes \<open>rep\<close>.
\<close>

definition replace_char :: "jschar \<Rightarrow> jsstring \<Rightarrow> jsstring \<Rightarrow> jsstring" where
  "replace_char c rep s = concat (map (\<lambda>x. if x = c then rep else [x]) s)"

text \<open>
  Lines 16-24. The guard \<open>!s && s != 0\<close> of line 17 is false for every string (\<open>!s\<close>
  holds of the empty string only, and \<open>"" != 0\<close> is false under loose comparison), so
  a string always takes the chain of replacements, applied in the order written.
\<close>

definition escapeHTML :: "jsstring \<Rightarrow> jsstring" where
  "escapeHTML s =
     replace_char 0x27 (js ''&#39;'')
       (replace_char 0x22 (js ''&quot;'')
         (replace_char 0x3E (js ''&gt;'')
           (replace_char 0x3C (js ''&lt;'')
             (replace_char 0x26 (js ''&amp;&'') s))))"

text \<open>
  The functions that the module declares and that take and return a string, by name;
  identifiers are case-sensitive. Evaluating a name with no binding raises a
  ReferenceError.
\<close>

definition resolve :: "string \<Rightarrow> (jsstring \<Rightarrow> jsstring) option" where
  "resolve name = (if name = ''escapeHTML'' then Some escapeHTML else None)"

text \<open>
  Lines 26-41. Line 27 returns the empty string for an empty argument (\<open>!raw\<close> holds
  and \<open>"" !== 0\<close>). Line 28 calls the identifier \<open>escapeHtml\<close>, which has no
  binding (the function declared on line 16 is \<open>escapeHTML\<close>), so for every other
  string the call raises before any of lines 29-40 is evaluated. Those lines do not form
  statements (the template literals of lines 30, 34 and 35 are not terminated); whatever
  they would compute from the escaped text is the parameter \<open>rest\<close>.
\<close>

definition formatDescriptionToHtml :: "(jsstring \<Rightarrow> jsstring) \<Rightarrow> jsstring \<Rightarrow> error + jsstring" where
  "formatDescriptionToHtml rest raw =
     (if raw = [] then Inr []
      else (case resolve ''escapeHtml'' of
              None \<Rightarrow> Inl ReferenceError
            | Some escapeHtml \<Rightarrow> Inr (rest (escapeHtml raw))))"

declare loop.simps [simp del]
declare loop_Single.simps [simp del]

section \<open>Totality of the decoder\<close>

lemma parseCSV_returns: "\<exists>recs. parseCSV raw = Inr recs"
  by (simp add: parseCSV_def js_index_def Let_def)

lemma step_in_quotes_other:
  "inQuotes st \<Longrightarrow> raw ! pos st \<noteq> DQUOTE \<Longrightarrow>
   step raw st = st\<lparr>cur := cur st @ [raw ! pos st], pos := pos st + 1\<rparr>"
  by (simp add: step_def Let_def)

lemma loop_unterminated:
  "inQuotes st \<Longrightarrow> pos st \<le> length raw \<Longrightarrow> DQUOTE \<notin> set (drop (pos st) raw) \<Longrightarrow>
   loop raw st = st\<lparr>cur := cur st @ drop (pos st) raw, pos := length raw\<rparr>"
proof (induction raw st rule: loop.induct)
  case (1 raw st)
  show ?case
  proof (cases "pos st < length raw")
    case True
    let ?i = "pos st"
    have split: "drop ?i raw = raw ! ?i # drop (Suc ?i) raw"
      using True by (simp add: Cons_nth_drop_Suc)
    with "1.prems"(3) have nq: "raw ! ?i \<noteq> DQUOTE" and rest: "DQUOTE \<notin> set (drop (Suc ?i) raw)"
      by auto
    have st': "step raw st = st\<lparr>cur := cur st @ [raw ! ?i], pos := ?i + 1\<rparr>"
      using "1.prems"(1) nq by (rule step_in_quotes_other)
    have "loop raw st = loop raw (step raw st)"
      using True by (subst loop.simps) simp
    also have "\<dots> = (step raw st)\<lparr>cur := cur (step raw st) @ drop (pos (step raw st)) raw, pos := length raw\<rparr>"
      using True "1.prems"(1) rest by (intro "1.IH") (simp_all add: st')
    also have "\<dots> = st\<lparr>cur := cur st @ drop ?i raw, pos := length raw\<rparr>"
      by (simp add: st' split)
    finally show ?thesis .
  next
    case False
    with "1.prems"(2) have "pos st = length raw" by simp
    then show ?thesis
      by (subst loop.simps) simp
  qed
qed

text \<open>
  Claim C1. For every input string the parser returns a sequence of records and raises
  nothing (the scan loop is a total function, its termination proved above). When the
  scan is inside a quoted field and no double quote follows, the loop appends the whole
  rest of the input to the open field and stops at the end of the input.
\<close>

theorem parseCSV_total:
  "(\<exists>recs. parseCSV raw = Inr recs) \<and>
   (inQuotes st \<and> pos st \<le> length raw \<and> DQUOTE \<notin> set (drop (pos st) raw) \<longrightarrow>
      loop raw st = st\<lparr>cur := cur st @ drop (pos st) raw, pos := length raw\<rparr>)"
  using parseCSV_returns loop_unterminated by blast

theorem parseCSV_total_witness:
  "parseCSV (js ''a\<newline>'' @ [DQUOTE] @ js ''b,c\<newline>d'') = Inr [[(js ''a'', js ''b,c\<newline>d'')]]
   \<and> loop (js ''a\<newline>'' @ [DQUOTE] @ js ''b,c\<newline>d'')
        \<lparr>pos = 3, cur = [], row = [], rows = [[js ''a'']], inQuotes = True\<rparr>
      = \<lparr>pos = 8, cur = js ''b,c\<newline>d'', row = [], rows = [[js ''a'']], inQuotes = True\<rparr>"
proof -
  let ?raw = "js ''a\<newline>'' @ [DQUOTE] @ js ''b,c\<newline>d''"
  let ?st = "\<lparr>pos = 3, cur = [], row = [], rows = [[js ''a'']], inQuotes = True\<rparr>"
  have h: "inQuotes ?st \<and> pos ?st \<le> length ?raw \<and> DQUOTE \<notin> set (drop (pos ?st) ?raw)"
    by (simp add: js_def DQUOTE_def)
  have "parseCSV ?raw = Inr [[(js ''a'', js ''b,c\<newline>d'')]]"
    by code_simp
  moreover have "loop ?raw ?st = ?st\<lparr>cur := cur ?st @ drop (pos ?st) ?raw, pos := length ?raw\<rparr>"
    using parseCSV_total [of ?raw ?st] h by blast
  ultimately show ?thesis
    by (simp add: js_def)
qed

section \<open>Quoted fields\<close>

lemma step_in_quotes_doubled:
  "inQuotes st \<Longrightarrow> raw ! pos st = DQUOTE \<Longrightarrow> js_index raw (pos st + 1) = Some DQUOTE \<Longrightarrow>
   step raw st = st\<lparr>cur := cur st @ [DQUOTE], pos := pos st + 2\<rparr>"
  by (simp add: step_def Let_def)

lemma step_in_quotes_close:
  "inQuotes st \<Longrightarrow> raw ! pos st = DQUOTE \<Longrightarrow> js_index raw (pos st + 1) \<noteq> Some DQUOTE \<Longrightarrow>
   step raw st = st\<lparr>inQuotes := False, pos := pos st + 1\<rparr>"
  by (simp add: step_def Let_def)

lemma separators_not_DQUOTE: "COMMA \<noteq> DQUOTE" "CR \<noteq> DQUOTE" "LF \<noteq> DQUOTE"
  by (simp_all add: COMMA_def CR_def LF_def DQUOTE_def)

text \<open>
  Claim C2. Inside a quoted field, a double quote followed by a double quote appends one
  quote character and stays in quoted mode; any other double quote leaves quoted mode;
  a comma, a carriage return and a line feed are appended to the field as they are. The
  input \<open>id,note\<close>, line feed, \<open>1,"hello, ""world""\<close>, line feed, \<open>line2"\<close> decodes to
  one record whose \<open>note\<close> is \<open>hello, "world"\<close>, a line feed and \<open>line2\<close>.
\<close>

theorem quoted_field_scan:
  "(inQuotes st \<and> pos st < length raw \<and> raw ! pos st = DQUOTE
      \<and> js_index raw (pos st + 1) = Some DQUOTE \<longrightarrow>
      step raw st = st\<lparr>cur := cur st @ [DQUOTE], pos := pos st + 2\<rparr>)
   \<and> (inQuotes st \<and> pos st < length raw \<and> raw ! pos st = DQUOTE
      \<and> js_index raw (pos st + 1) \<noteq> Some DQUOTE \<longrightarrow>
      step raw st = st\<lparr>inQuotes := False, pos := pos st + 1\<rparr>)
   \<and> (inQuotes st \<and> pos st < length raw \<and> raw ! pos st \<in> {COMMA, CR, LF} \<longrightarrow>
      step raw st = st\<lparr>cur := cur st @ [raw ! pos st], pos := pos st + 1\<rparr>)
   \<and> parseCSV (js ''id,note\<newline>1,'' @ [DQUOTE] @ js ''hello, '' @ [DQUOTE, DQUOTE] @ js ''world''
             @ [DQUOTE, DQUOTE] @ js ''\<newline>line2'' @ [DQUOTE])
      = Inr [[(js ''id'', js ''1''),
           (js ''note'', js ''hello, '' @ [DQUOTE] @ js ''world'' @ [DQUOTE] @ js ''\<newline>line2'')]]"
proof (intro conjI impI)
  assume "inQuotes st \<and> pos st < length raw \<and> raw ! pos st = DQUOTE
      \<and> js_index raw (pos st + 1) = Some DQUOTE"
  then show "step raw st = st\<lparr>cur := cur st @ [DQUOTE], pos := pos st + 2\<rparr>"
    by (simp add: step_in_quotes_doubled)
next
  assume "inQuotes st \<and> pos st < length raw \<and> raw ! pos st = DQUOTE
      \<and> js_index raw (pos st + 1) \<noteq> Some DQUOTE"
  then show "step raw st = st\<lparr>inQuotes := False, pos := pos st + 1\<rparr>"
    by (simp add: step_in_quotes_close)
next
  assume a: "inQuotes st \<and> pos st < length raw \<and> raw ! pos st \<in> {COMMA, CR, LF}"
  then have "raw ! pos st \<noteq> DQUOTE"
    using separators_not_DQUOTE by auto
  with a show "step raw st = st\<lparr>cur := cur st @ [raw ! pos st], pos := pos st + 1\<rparr>"
    by (simp add: step_in_quotes_other)
next
  show "parseCSV (js ''id,note\<newline>1,'' @ [DQUOTE] @ js ''hello, '' @ [DQUOTE, DQUOTE] @ js ''world''
             @ [DQUOTE, DQUOTE] @ js ''\<newline>line2'' @ [DQUOTE])
      = Inr [[(js ''id'', js ''1''),
           (js ''note'', js ''hello, '' @ [DQUOTE] @ js ''world'' @ [DQUOTE] @ js ''\<newline>line2'')]]"
    by code_simp
qed

theorem quoted_field_scan_witness:
  "step ([0x61, DQUOTE, DQUOTE, COMMA, DQUOTE])
        \<lparr>pos = 1, cur = [0x61], row = [], rows = [], inQuotes = True\<rparr>
     = \<lparr>pos = 3, cur = [0x61, DQUOTE], row = [], rows = [], inQuotes = True\<rparr>
   \<and> step ([0x61, DQUOTE, DQUOTE, COMMA, DQUOTE])
        \<lparr>pos = 4, cur = [0x61, DQUOTE, COMMA], row = [], rows = [], inQuotes = True\<rparr>
     = \<lparr>pos = 5, cur = [0x61, DQUOTE, COMMA], row = [], rows = [], inQuotes = False\<rparr>
   \<and> step ([0x61, DQUOTE, DQUOTE, COMMA, DQUOTE])
        \<lparr>pos = 3, cur = [0x61, DQUOTE], row = [], rows = [], inQuotes = True\<rparr>
     = \<lparr>pos = 4, cur = [0x61, DQUOTE, COMMA], row = [], rows = [], inQuotes = True\<rparr>"
proof -
  let ?raw = "[0x61, DQUOTE, DQUOTE, COMMA, DQUOTE]"
  let ?s1 = "\<lparr>pos = 1, cur = [0x61], row = [], rows = [], inQuotes = True\<rparr>"
  let ?s2 = "\<lparr>pos = 4, cur = [0x61, DQUOTE, COMMA], row = [], rows = [], inQuotes = True\<rparr>"
  let ?s3 = "\<lparr>pos = 3, cur = [0x61, DQUOTE], row = [], rows = [], inQuotes = True\<rparr>"
  have h1: "inQuotes ?s1 \<and> pos ?s1 < length ?raw \<and> ?raw ! pos ?s1 = DQUOTE
      \<and> js_index ?raw (pos ?s1 + 1) = Some DQUOTE"
    by (simp add: js_index_def)
  have h2: "inQuotes ?s2 \<and> pos ?s2 < length ?raw \<and> ?raw ! pos ?s2 = DQUOTE
      \<and> js_index ?raw (pos ?s2 + 1) \<noteq> Some DQUOTE"
    by (simp add: js_index_def)
  have h3: "inQuotes ?s3 \<and> pos ?s3 < length ?raw \<and> ?raw ! pos ?s3 \<in> {COMMA, CR, LF}"
    by simp
  have "step ?raw ?s1 = ?s1\<lparr>cur := cur ?s1 @ [DQUOTE], pos := pos ?s1 + 2\<rparr>"
    using quoted_field_scan [of ?s1 ?raw] h1 by blast
  moreover have "step ?raw ?s2 = ?s2\<lparr>inQuotes := False, pos := pos ?s2 + 1\<rparr>"
    using quoted_field_scan [of ?s2 ?raw] h2 by blast
  moreover have "step ?raw ?s3 = ?s3\<lparr>cur := cur ?s3 @ [?raw ! pos ?s3], pos := pos ?s3 + 1\<rparr>"
    using quoted_field_scan [of ?s3 ?raw] h3 by blast
  ultimately show ?thesis
    by simp
qed

section \<open>Records and the header\<close>

lemma update_fresh: "k \<notin> fst ` set al \<Longrightarrow> AList.update k v al = al @ [(k, v)]"
  by (induction al) auto

lemma set_update_subset: "set (AList.update k v al) \<subseteq> insert (k, v) (set al)"
  by (induction al) auto

lemma cell_eq: "cell r j = (if j < length r then trim (r ! j) else [])"
  by (simp add: cell_def js_index_def)

lemma parseCSV_rows:
  "scan_rows raw = hrow # drows \<Longrightarrow>
   parseCSV raw = Inr (map (make_obj (map trim hrow)) drows)"
  by (simp add: parseCSV_def js_index_def Let_def)

lemma fold_fill_zip:
  assumes "distinct hs" and "js ''__proto__'' \<notin> set hs" and "n \<le> length hs"
  shows "fold (\<lambda>j ob. obj_set ob (hs ! j) (cell r j)) [0..<n] []
         = zip (take n hs) (map (cell r) [0..<n])"
  using assms(3)
proof (induction n)
  case 0
  show ?case by simp
next
  case (Suc n)
  let ?z = "zip (take n hs) (map (cell r) [0..<n])"
  have n: "n < length hs" using Suc.prems by simp
  have keys: "map fst ?z = take n hs"
    using n by (simp add: map_fst_zip)
  have "hs ! n \<notin> set (take n hs)"
    using assms(1) n by (metis distinct_take id_take_nth_drop not_distinct_conv_prefix)
  then have fresh: "hs ! n \<notin> fst ` set ?z"
    using keys by (metis set_map)
  have np: "hs ! n \<noteq> js ''__proto__''"
    using assms(2) n by (metis nth_mem)
  have "fold (\<lambda>j ob. obj_set ob (hs ! j) (cell r j)) [0..<Suc n] []
        = obj_set ?z (hs ! n) (cell r n)"
    using Suc.IH n by simp
  also have "\<dots> = ?z @ [(hs ! n, cell r n)]"
    using np fresh by (simp add: obj_set_def update_fresh)
  also have "\<dots> = zip (take (Suc n) hs) (map (cell r) [0..<Suc n])"
    using n by (simp add: take_Suc_conv_app_nth)
  finally show ?case .
qed

lemma make_obj_zip:
  "distinct hs \<Longrightarrow> js ''__proto__'' \<notin> set hs \<Longrightarrow>
   make_obj hs r = zip hs (map (cell r) [0..<length hs])"
  using fold_fill_zip [of hs "length hs" r] by (simp add: make_obj_def)

lemma own_keys_no_index:
  "\<forall>k \<in> fst ` set ob. \<not> is_array_index k \<Longrightarrow> own_keys ob = map fst ob"
proof -
  assume a: "\<forall>k \<in> fst ` set ob. \<not> is_array_index k"
  then have "filter is_array_index (map fst ob) = []"
    by (auto simp: filter_empty_conv)
  moreover have "filter (\<lambda>k. \<not> is_array_index k) (map fst ob) = map fst ob"
    using a by (auto simp: filter_id_conv)
  ultimately show ?thesis
    by (simp add: own_keys_def)
qed

text \<open>
  Claim C3, as amended. When the trimmed cells of the first row are pairwise distinct and
  none of them is \<open>__proto__\<close> or an array index, every returned record has exactly
  these cells as its keys, in the header's order, one record per later row; the value of
  the \<open>j\<close>-th key is the trimmed \<open>j\<close>-th cell of the row, or the empty string when the
  row has no \<open>j\<close>-th cell; the record has as many properties as the header has cells, so
  cells beyond the header's length are dropped.
\<close>

theorem records_zip_header:
  assumes "scan_rows raw = hrow # drows"
    and "distinct (map trim hrow)"
    and "\<forall>k \<in> set (map trim hrow). k \<noteq> js ''__proto__'' \<and> \<not> is_array_index k"
  shows "\<exists>recs. parseCSV raw = Inr recs \<and> length recs = length drows \<and>
           (\<forall>i<length drows.
              own_keys (recs ! i) = map trim hrow \<and>
              length (recs ! i) = length hrow \<and>
              (\<forall>j<length hrow.
                 obj_get (recs ! i) (trim (hrow ! j))
                 = Some (if j < length (drows ! i) then trim (drows ! i ! j) else [])))"
proof -
  let ?hs = "map trim hrow"
  let ?recs = "map (make_obj ?hs) drows"
  have np: "js ''__proto__'' \<notin> set ?hs"
    using assms(3) by blast
  have zip: "make_obj ?hs r = zip ?hs (map (cell r) [0..<length ?hs])" for r
    using assms(2) np by (rule make_obj_zip)
  have "own_keys (?recs ! i) = ?hs \<and> length (?recs ! i) = length hrow \<and>
        (\<forall>j<length hrow. obj_get (?recs ! i) (trim (hrow ! j))
                 = Some (if j < length (drows ! i) then trim (drows ! i ! j) else []))"
    if i: "i < length drows" for i
  proof -
    let ?r = "drows ! i"
    have rec: "?recs ! i = zip ?hs (map (cell ?r) [0..<length ?hs])"
      using i zip by simp
    have keys: "map fst (?recs ! i) = ?hs"
      by (simp add: rec map_fst_zip)
    have "\<forall>k \<in> fst ` set (?recs ! i). \<not> is_array_index k"
      using assms(3) keys by (metis set_map)
    then have "own_keys (?recs ! i) = ?hs"
      using keys by (simp add: own_keys_no_index)
    moreover have "length (?recs ! i) = length hrow"
      by (simp add: rec)
    moreover have "obj_get (?recs ! i) (trim (hrow ! j))
                 = Some (if j < length ?r then trim (?r ! j) else [])"
      if j: "j < length hrow" for j
    proof -
      have "map_of (zip ?hs (map (cell ?r) [0..<length ?hs])) (?hs ! j)
            = Some (map (cell ?r) [0..<length ?hs] ! j)"
        using assms(2) j by (intro map_of_zip_nth) simp_all
      then show ?thesis
        using j by (simp add: obj_get_def rec cell_eq)
    qed
    ultimately show ?thesis by blast
  qed
  moreover have "parseCSV raw = Inr ?recs"
    using assms(1) by (rule parseCSV_rows)
  ultimately show ?thesis
    by simp
qed

theorem records_zip_header_witness:
  "scan_rows (js ''id, category\<newline>1,Birch ,extra\<newline>2'')
     = [js ''id'', js '' category''] # [[js ''1'', js ''Birch '', js ''extra''], [js ''2'']]
   \<and> distinct (map trim [js ''id'', js '' category''])
   \<and> (\<exists>recs. parseCSV (js ''id, category\<newline>1,Birch ,extra\<newline>2'') = Inr recs
         \<and> length recs = length [[js ''1'', js ''Birch '', js ''extra''], [js ''2'']]
         \<and> (\<forall>i<length [[js ''1'', js ''Birch '', js ''extra''], [js ''2'']].
              own_keys (recs ! i) = map trim [js ''id'', js '' category''] \<and>
              length (recs ! i) = length [js ''id'', js '' category''] \<and>
              (\<forall>j<length [js ''id'', js '' category''].
                 obj_get (recs ! i) (trim ([js ''id'', js '' category''] ! j))
                 = Some (if j < length ([[js ''1'', js ''Birch '', js ''extra''], [js ''2'']] ! i)
                         then trim ([[js ''1'', js ''Birch '', js ''extra''], [js ''2'']] ! i ! j)
                         else []))))
   \<and> parseCSV (js ''id, category\<newline>1,Birch ,extra\<newline>2'')
       = Inr [[(js ''id'', js ''1''), (js ''category'', js ''Birch'')],
              [(js ''id'', js ''2''), (js ''category'', [])]]"
proof -
  let ?raw = "js ''id, category\<newline>1,Birch ,extra\<newline>2''"
  let ?h = "[js ''id'', js '' category'']"
  let ?d = "[[js ''1'', js ''Birch '', js ''extra''], [js ''2'']]"
  have h1: "scan_rows ?raw = ?h # ?d"
    by code_simp
  have h2: "distinct (map trim ?h)"
    by code_simp
  have h3: "\<forall>k \<in> set (map trim ?h). k \<noteq> js ''__proto__'' \<and> \<not> is_array_index k"
    by code_simp
  have "parseCSV ?raw = Inr [[(js ''id'', js ''1''), (js ''category'', js ''Birch'')],
              [(js ''id'', js ''2''), (js ''category'', [])]]"
    by code_simp
  then show ?thesis
    using h1 h2 records_zip_header [OF h1 h2 h3] by blast
qed

text \<open>
  The claim as it was stated fails when a header name occurs twice: the object has the
  name once, and its value is the cell of the later column.
\<close>

theorem records_keys_counterexample:
  "scan_rows (js ''a,a\<newline>1,2'') = [[js ''a'', js ''a''], [js ''1'', js ''2'']]
   \<and> parseCSV (js ''a,a\<newline>1,2'') = Inr [[(js ''a'', js ''2'')]]
   \<and> own_keys [(js ''a'', js ''2'')] = [js ''a'']
   \<and> [js ''a''] \<noteq> map trim [js ''a'', js ''a'']
   \<and> obj_get [(js ''a'', js ''2'')] (trim ([js ''a'', js ''a''] ! 0)) \<noteq> Some (trim ([js ''1'', js ''2''] ! 0))"
  by code_simp

text \<open>
  A header cell \<open>__proto__\<close> creates no key, and a header cell that is an array index is
  enumerated before the other keys.
\<close>

lemma records_keys_proto:
  "parseCSV (js ''__proto__,b\<newline>1,2'') = Inr [[(js ''b'', js ''2'')]]"
  by code_simp

lemma records_keys_index_order:
  "parseCSV (js ''b,7\<newline>1,2'') = Inr [[(js ''b'', js ''1''), (js ''7'', js ''2'')]]
   \<and> own_keys [(js ''b'', js ''1''), (js ''7'', js ''2'')] = [js ''7'', js ''b'']"
  by code_simp

section \<open>Trimming\<close>

lemma trim_ends: "trim s \<noteq> [] \<Longrightarrow> \<not> is_ws (hd (trim s)) \<and> \<not> is_ws (last (trim s))"
proof -
  let ?t = "dropWhile is_ws s"
  let ?u = "dropWhile is_ws (rev ?t)"
  assume "trim s \<noteq> []"
  then have u: "?u \<noteq> []" by (simp add: trim_def)
  have t: "?t \<noteq> []"
  proof
    assume "?t = []"
    then have "?u = []" by (metis dropWhile.simps(1) rev.simps(1))
    with u show False by simp
  qed
  have "\<not> is_ws (hd ?u)" using u by (rule hd_dropWhile)
  then have l: "\<not> is_ws (last (trim s))"
    using u by (simp add: trim_def last_rev)
  have "rev ?t = takeWhile is_ws (rev ?t) @ ?u" by simp
  then have "?t = rev ?u @ rev (takeWhile is_ws (rev ?t))"
    by (metis rev_append rev_rev_ident)
  then have "hd ?t = hd (rev ?u)"
    using u by (metis hd_append2 rev_is_Nil_conv)
  moreover have "\<not> is_ws (hd ?t)" using t by (rule hd_dropWhile)
  ultimately have "\<not> is_ws (hd (trim s))" by (simp add: trim_def)
  with l show ?thesis by simp
qed

lemma cell_ends: "cell r j \<noteq> [] \<Longrightarrow> \<not> is_ws (hd (cell r j)) \<and> \<not> is_ws (last (cell r j))"
  using trim_ends [of "r ! j"] by (auto simp: cell_eq split: if_splits)

lemma fold_fill_entries:
  "set (fold (\<lambda>j ob. obj_set ob (hs ! j) (cell r j)) idxs ob)
   \<subseteq> set ob \<union> (\<lambda>j. (hs ! j, cell r j)) ` set idxs"
proof (induction idxs arbitrary: ob)
  case Nil
  show ?case by simp
next
  case (Cons j idxs)
  have "set (obj_set ob (hs ! j) (cell r j)) \<subseteq> insert (hs ! j, cell r j) (set ob)"
    using set_update_subset [of "hs ! j" "cell r j" ob] by (auto simp: obj_set_def)
  with Cons.IH [of "obj_set ob (hs ! j) (cell r j)"] show ?case
    by auto
qed

lemma make_obj_entries:
  assumes "(k, v) \<in> set (make_obj hs r)"
  shows "\<exists>j<length hs. k = hs ! j \<and> v = cell r j"
proof -
  have "(k, v) \<in> (\<lambda>j. (hs ! j, cell r j)) ` set [0..<length hs]"
    using assms fold_fill_entries [of hs r "[0..<length hs]" "[]"]
    by (auto simp: make_obj_def)
  then obtain j where "j \<in> set [0..<length hs]" and "(k, v) = (hs ! j, cell r j)"
    by blast
  then show ?thesis by auto
qed

text \<open>
  Claim C5, as amended. Every key of a returned record is the trimmed text of a header
  cell and every value is the trimmed text of the scanned cell in the same column (the
  empty string for a missing cell), whether or not the cell's text came from inside a
  quoted field: no key and no value starts or ends with a whitespace character.
\<close>

theorem cells_trimmed:
  assumes "scan_rows raw = hrow # drows"
    and "parseCSV raw = Inr recs"
    and "i < length recs"
    and "(k, v) \<in> set (recs ! i)"
  shows "(\<exists>j<length hrow. k = trim (hrow ! j)
            \<and> v = (if j < length (drows ! i) then trim (drows ! i ! j) else []))
         \<and> (k = [] \<or> (\<not> is_ws (hd k) \<and> \<not> is_ws (last k)))
         \<and> (v = [] \<or> (\<not> is_ws (hd v) \<and> \<not> is_ws (last v)))"
proof -
  have recs: "recs = map (make_obj (map trim hrow)) drows"
    using assms(1,2) by (simp add: parseCSV_rows)
  then have "(k, v) \<in> set (make_obj (map trim hrow) (drows ! i))"
    using assms(3,4) by simp
  then obtain j where j: "j < length hrow" "k = trim (hrow ! j)" "v = cell (drows ! i) j"
    using make_obj_entries [of k v "map trim hrow" "drows ! i"] by auto
  have "k = [] \<or> (\<not> is_ws (hd k) \<and> \<not> is_ws (last k))"
    using trim_ends [of "hrow ! j"] j(2) by blast
  moreover have "v = [] \<or> (\<not> is_ws (hd v) \<and> \<not> is_ws (last v))"
    using cell_ends [of "drows ! i" j] j(3) by blast
  ultimately show ?thesis
    using j by (auto simp: cell_eq)
qed

theorem cells_trimmed_witness:
  "scan_rows (js ''a\<newline>'' @ [DQUOTE] @ js '' x y '' @ [DQUOTE])  = [js ''a''] # [[js '' x y '']]
   \<and> parseCSV (js ''a\<newline>'' @ [DQUOTE] @ js '' x y '' @ [DQUOTE]) = Inr [[(js ''a'', js ''x y'')]]
   \<and> (\<exists>j<length [js ''a'']. js ''a'' = trim ([js ''a''] ! j)
            \<and> js ''x y'' = (if j < length ([[js '' x y '']] ! 0) then trim ([[js '' x y '']] ! 0 ! j) else []))
   \<and> \<not> is_ws (hd (js ''x y'')) \<and> \<not> is_ws (last (js ''x y''))"
proof -
  let ?raw = "js ''a\<newline>'' @ [DQUOTE] @ js '' x y '' @ [DQUOTE]"
  have h1: "scan_rows ?raw = [js ''a''] # [[js '' x y '']]"
    by code_simp
  have h2: "parseCSV ?raw = Inr [[(js ''a'', js ''x y'')]]"
    by code_simp
  have h3: "0 < length [[(js ''a'', js ''x y'')]]"
    by simp
  have h4: "(js ''a'', js ''x y'') \<in> set ([[(js ''a'', js ''x y'')]] ! 0)"
    by simp
  have ne: "js ''x y'' \<noteq> []"
    by (simp add: js_def)
  show ?thesis
    using h1 h2 ne cells_trimmed [OF h1 h2 h3 h4] by blast
qed

text \<open>
  The claim as it was stated fails on a quoted cell: the scan keeps the blanks inside the
  quotes, and line 74 trims the cell all the same.
\<close>

theorem quoted_whitespace_counterexample:
  "scan_rows (js ''a\<newline>'' @ [DQUOTE] @ js '' x '' @ [DQUOTE]) = [[js ''a''], [js '' x '']]
   \<and> parseCSV (js ''a\<newline>'' @ [DQUOTE] @ js '' x '' @ [DQUOTE]) = Inr [[(js ''a'', js ''x'')]]
   \<and> js ''x'' \<noteq> js '' x ''"
  by code_simp

section \<open>Row terminators and the final flush\<close>

lemma step_CRLF:
  "\<not> inQuotes st \<Longrightarrow> raw ! pos st = CR \<Longrightarrow> js_index raw (pos st + 1) = Some LF \<Longrightarrow>
   step raw st = st\<lparr>pos := pos st + 2, rows := rows st @ [row st @ [cur st]], row := [], cur := []\<rparr>"
  by (simp add: step_def Let_def CR_def DQUOTE_def COMMA_def)

lemma step_lone_CR:
  "\<not> inQuotes st \<Longrightarrow> raw ! pos st = CR \<Longrightarrow> js_index raw (pos st + 1) \<noteq> Some LF \<Longrightarrow>
   step raw st = st\<lparr>pos := pos st + 1, rows := rows st @ [row st @ [cur st]], row := [], cur := []\<rparr>"
  by (simp add: step_def Let_def CR_def DQUOTE_def COMMA_def)

lemma step_LF:
  "\<not> inQuotes st \<Longrightarrow> raw ! pos st = LF \<Longrightarrow>
   step raw st = st\<lparr>pos := pos st + 1, rows := rows st @ [row st @ [cur st]], row := [], cur := []\<rparr>"
  by (simp add: step_def Let_def CR_def LF_def DQUOTE_def COMMA_def)

text \<open>
  Claim C4. Outside a quoted field, a carriage return followed by a line feed ends the
  row and is consumed as one terminator (the position advances by two); a carriage
  return alone and a line feed alone end the row too. After the scan, a non-empty field
  buffer or a row holding a field is flushed as the last row, and nothing is added
  otherwise. The input \<open>id,category\<close>, \<open>1,Birch\<close>, \<open>2,Oak\<close> with line feeds between
  the lines and none at the end decodes to the two records of Birch and Oak.
\<close>

theorem row_terminators_and_flush:
  "(\<not> inQuotes st \<and> pos st < length raw \<and> raw ! pos st = CR
      \<and> js_index raw (pos st + 1) = Some LF \<longrightarrow>
      step raw st = st\<lparr>pos := pos st + 2, rows := rows st @ [row st @ [cur st]],
                        row := [], cur := []\<rparr>)
   \<and> (\<not> inQuotes st \<and> pos st < length raw \<and> raw ! pos st = CR
      \<and> js_index raw (pos st + 1) \<noteq> Some LF \<longrightarrow>
      step raw st = st\<lparr>pos := pos st + 1, rows := rows st @ [row st @ [cur st]],
                        row := [], cur := []\<rparr>)
   \<and> (\<not> inQuotes st \<and> pos st < length raw \<and> raw ! pos st = LF \<longrightarrow>
      step raw st = st\<lparr>pos := pos st + 1, rows := rows st @ [row st @ [cur st]],
                        row := [], cur := []\<rparr>)
   \<and> (cur st \<noteq> [] \<or> row st \<noteq> [] \<longrightarrow> finish st = rows st @ [row st @ [cur st]])
   \<and> (cur st = [] \<and> row st = [] \<longrightarrow> finish st = rows st)
   \<and> parseCSV (js ''id,category\<newline>1,Birch\<newline>2,Oak'')
      = Inr [[(js ''id'', js ''1''), (js ''category'', js ''Birch'')],
             [(js ''id'', js ''2''), (js ''category'', js ''Oak'')]]
   \<and> parseCSV (js ''a'' @ [CR, LF] @ js ''1'' @ [CR] @ js ''2'' @ [LF] @ js ''3'')
      = Inr [[(js ''a'', js ''1'')], [(js ''a'', js ''2'')], [(js ''a'', js ''3'')]]"
proof (intro conjI impI)
  assume "\<not> inQuotes st \<and> pos st < length raw \<and> raw ! pos st = CR
      \<and> js_index raw (pos st + 1) = Some LF"
  then show "step raw st = st\<lparr>pos := pos st + 2, rows := rows st @ [row st @ [cur st]],
                        row := [], cur := []\<rparr>"
    by (simp add: step_CRLF)
next
  assume "\<not> inQuotes st \<and> pos st < length raw \<and> raw ! pos st = CR
      \<and> js_index raw (pos st + 1) \<noteq> Some LF"
  then show "step raw st = st\<lparr>pos := pos st + 1, rows := rows st @ [row st @ [cur st]],
                        row := [], cur := []\<rparr>"
    by (simp add: step_lone_CR)
next
  assume "\<not> inQuotes st \<and> pos st < length raw \<and> raw ! pos st = LF"
  then show "step raw st = st\<lparr>pos := pos st + 1, rows := rows st @ [row st @ [cur st]],
                        row := [], cur := []\<rparr>"
    by (simp add: step_LF)
next
  assume "cur st \<noteq> [] \<or> row st \<noteq> []"
  then show "finish st = rows st @ [row st @ [cur st]]"
    by (auto simp: finish_def)
next
  assume "cur st = [] \<and> row st = []"
  then show "finish st = rows st"
    by (simp add: finish_def)
next
  show "parseCSV (js ''id,category\<newline>1,Birch\<newline>2,Oak'')
      = Inr [[(js ''id'', js ''1''), (js ''category'', js ''Birch'')],
             [(js ''id'', js ''2''), (js ''category'', js ''Oak'')]]"
    by code_simp
next
  show "parseCSV (js ''a'' @ [CR, LF] @ js ''1'' @ [CR] @ js ''2'' @ [LF] @ js ''3'')
      = Inr [[(js ''a'', js ''1'')], [(js ''a'', js ''2'')], [(js ''a'', js ''3'')]]"
    by code_simp
qed

theorem row_terminators_and_flush_witness:
  "step [0x61, CR, LF, 0x62, CR, 0x63, LF] \<lparr>pos = 1, cur = [0x61], row = [], rows = [], inQuotes = False\<rparr>
     = \<lparr>pos = 3, cur = [], row = [], rows = [[[0x61]]], inQuotes = False\<rparr>
   \<and> step [0x61, CR, LF, 0x62, CR, 0x63, LF] \<lparr>pos = 4, cur = [0x62], row = [], rows = [[[0x61]]], inQuotes = False\<rparr>
     = \<lparr>pos = 5, cur = [], row = [], rows = [[[0x61]], [[0x62]]], inQuotes = False\<rparr>
   \<and> step [0x61, CR, LF, 0x62, CR, 0x63, LF] \<lparr>pos = 6, cur = [0x63], row = [], rows = [[[0x61]], [[0x62]]], inQuotes = False\<rparr>
     = \<lparr>pos = 7, cur = [], row = [], rows = [[[0x61]], [[0x62]], [[0x63]]], inQuotes = False\<rparr>
   \<and> finish \<lparr>pos = 3, cur = [0x62], row = [[0x61]], rows = [], inQuotes = False\<rparr> = [[[0x61], [0x62]]]
   \<and> finish \<lparr>pos = 2, cur = [], row = [], rows = [[[0x61]]], inQuotes = False\<rparr> = [[[0x61]]]"
proof -
  let ?raw = "[0x61, CR, LF, 0x62, CR, 0x63, LF]"
  let ?s1 = "\<lparr>pos = 1, cur = [0x61], row = [], rows = [], inQuotes = False\<rparr>"
  let ?s2 = "\<lparr>pos = 4, cur = [0x62], row = [], rows = [[[0x61]]], inQuotes = False\<rparr>"
  let ?s3 = "\<lparr>pos = 6, cur = [0x63], row = [], rows = [[[0x61]], [[0x62]]], inQuotes = False\<rparr>"
  let ?s4 = "\<lparr>pos = 3, cur = [0x62], row = [[0x61]], rows = [], inQuotes = False\<rparr>"
  let ?s5 = "\<lparr>pos = 2, cur = [], row = [], rows = [[[0x61]]], inQuotes = False\<rparr>"
  have h1: "\<not> inQuotes ?s1 \<and> pos ?s1 < length ?raw \<and> ?raw ! pos ?s1 = CR
      \<and> js_index ?raw (pos ?s1 + 1) = Some LF"
    by (simp add: js_index_def)
  have h2: "\<not> inQuotes ?s2 \<and> pos ?s2 < length ?raw \<and> ?raw ! pos ?s2 = CR
      \<and> js_index ?raw (pos ?s2 + 1) \<noteq> Some LF"
    by (simp add: js_index_def LF_def)
  have h3: "\<not> inQuotes ?s3 \<and> pos ?s3 < length ?raw \<and> ?raw ! pos ?s3 = LF"
    by simp
  have h4: "cur ?s4 \<noteq> [] \<or> row ?s4 \<noteq> []"
    by simp
  have h5: "cur ?s5 = [] \<and> row ?s5 = []"
    by simp
  have "step ?raw ?s1 = ?s1\<lparr>pos := pos ?s1 + 2, rows := rows ?s1 @ [row ?s1 @ [cur ?s1]],
                        row := [], cur := []\<rparr>"
    using row_terminators_and_flush [of ?s1 ?raw] h1 by blast
  moreover have "step ?raw ?s2 = ?s2\<lparr>pos := pos ?s2 + 1, rows := rows ?s2 @ [row ?s2 @ [cur ?s2]],
                        row := [], cur := []\<rparr>"
    using row_terminators_and_flush [of ?s2 ?raw] h2 by blast
  moreover have "step ?raw ?s3 = ?s3\<lparr>pos := pos ?s3 + 1, rows := rows ?s3 @ [row ?s3 @ [cur ?s3]],
                        row := [], cur := []\<rparr>"
    using row_terminators_and_flush [of ?s3 ?raw] h3 by blast
  moreover have "finish ?s4 = rows ?s4 @ [row ?s4 @ [cur ?s4]]"
    using row_terminators_and_flush [of ?s4 ?raw] h4 by blast
  moreover have "finish ?s5 = rows ?s5"
    using row_terminators_and_flush [of ?s5 ?raw] h5 by blast
  ultimately show ?thesis
    by simp
qed

section \<open>The two parsers agree\<close>

lemma step_Single_step: "step_Single raw st = step raw st"
  by (simp add: step_Single_def step_def)

lemma loop_Single_loop: "loop_Single raw st = loop raw st"
proof (induction raw st rule: loop.induct)
  case (1 raw st)
  show ?case
  proof (cases "pos st < length raw")
    case True
    have "loop_Single raw st = loop_Single raw (step_Single raw st)"
      using True by (subst loop_Single.simps) simp
    also have "\<dots> = loop raw (step raw st)"
      using 1 [OF True] by (simp add: step_Single_step)
    also have "\<dots> = loop raw st"
      using True by (subst (2) loop.simps) simp
    finally show ?thesis .
  next
    case False
    then show ?thesis
      by (subst loop_Single.simps, subst loop.simps) simp
  qed
qed

lemma make_obj_Single_make_obj: "make_obj_Single header = make_obj header"
  by (rule ext) (simp add: make_obj_Single_def make_obj_def cell_def)

text \<open>
  Claim C10. The parser of PlywoodSingle.js and the parser of PlywoodSimple.js return the
  same sequence of records for every input string.
\<close>

theorem parseCSV_Single_eq_parseCSV: "parseCSV_Single raw = parseCSV raw"
  by (simp add: parseCSV_Single_def parseCSV_def scan_rows_def finish_def
      loop_Single_loop make_obj_Single_make_obj Let_def split: option.splits)

theorem parseCSV_Single_eq_parseCSV_witness:
  "parseCSV_Single (js ''a,b\<newline>1,2'') = Inr [[(js ''a'', js ''1''), (js ''b'', js ''2'')]]"
proof -
  have "parseCSV (js ''a,b\<newline>1,2'') = Inr [[(js ''a'', js ''1''), (js ''b'', js ''2'')]]"
    by code_simp
  then show ?thesis
    by (simp only: parseCSV_Single_eq_parseCSV)
qed

section \<open>The visibility filter\<close>

text \<open>
  Claim C9. A record is among the displayed items exactly when it is among the decoded
  records and its \<open>visible\<close> field is the empty string, \<open>true\<close> or \<open>1\<close>; the filter
  keeps the order of the records, and both components filter alike.
\<close>

theorem visible_filter_keeps_iff:
  "(r \<in> set (fetchCsv_visible parsed) \<longleftrightarrow>
      r \<in> set parsed \<and>
      (obj_get r (js ''visible'') = Some [] \<or> obj_get r (js ''visible'') = Some (js ''true'')
       \<or> obj_get r (js ''visible'') = Some (js ''1'')))
   \<and> fetchSheet_items parsed = fetchCsv_visible parsed
   \<and> subseq (fetchCsv_visible parsed) parsed"
  by (auto simp: fetchCsv_visible_def fetchSheet_items_def)

section \<open>The formatter\<close>

text \<open>
  Claim C6. The claim is that the formatter returns a string for every input. The
  function returns the empty string for the empty string, and raises a ReferenceError
  for the one-character description \<open>x\<close>.
\<close>

theorem formatDescriptionToHtml_raises:
  "formatDescriptionToHtml rest [] = Inr []
   \<and> formatDescriptionToHtml rest (js ''x'') = Inl ReferenceError"
  by (simp add: formatDescriptionToHtml_def resolve_def js_def)

text \<open>
  Claim C7. The claim is that an ampersand is escaped to its entity and nothing else is
  added. The function of line 16 turns one ampersand into the entity followed by a
  second, unescaped ampersand. It does escape the angle brackets of \<open><script>\<close>, but
  the formatter never reaches it: on that input the formatter raises a ReferenceError.
\<close>

theorem escapeHTML_ampersand:
  "escapeHTML (js ''&'') = js ''&amp;&''
   \<and> escapeHTML (js ''<script>'') = js ''&lt;script&gt;''
   \<and> formatDescriptionToHtml rest (js ''<script>'') = Inl ReferenceError"
  by (simp add: escapeHTML_def replace_char_def formatDescriptionToHtml_def resolve_def js_def)

text \<open>
  Claim C8. The claim is that the formatter wraps \<open>bold\<close> in a strong-emphasis element
  for the input \<open>**bold**\<close>. The function raises a ReferenceError on that input; no
  substitution pass runs.
\<close>

theorem formatDescriptionToHtml_bold_raises:
  "formatDescriptionToHtml rest (js ''**bold**'') = Inl ReferenceError"
  by (simp add: formatDescriptionToHtml_def resolve_def js_def)

end
